theory Spec2Isabelle
  imports Main "HOL-Library.Word" "HOL-Library.Sublist"
begin

section \<open>The idle timer of the ssh package\<close>

subsection \<open>Data\<close>

text \<open>
  \<^verbatim>\<open>time.Duration\<close> is a signed 64-bit count of nanoseconds and the monotonic clock is
  a \<^verbatim>\<open>uint64\<close>. Both are 64-bit words: the tests \<^verbatim>\<open>dur > 0\<close> and
  \<^verbatim>\<open>tk.newdur <= 0\<close> of the source read the word as signed (\<open><s\<close>, \<open>\<le>s\<close>), the
  conversion \<^verbatim>\<open>uint64(dur)\<close> keeps the bits, and the comparison of
  \<^verbatim>\<open>NanosecSince()\<close> with it is the unsigned order of words.
\<close>

type_synonym duration = "64 word"
type_synonym u64 = "64 word"

definition uint64 :: "duration \<Rightarrow> u64" where
  "uint64 d = d"

text \<open>A \<^verbatim>\<open>*time.Ticker\<close> made by \<^verbatim>\<open>time.NewTicker(d)\<close>; \<open>None\<close> is the nil pointer.\<close>

datatype ticker = Ticker duration

text \<open>
  Modelled from the spec: the \<^verbatim>\<open>Halter\<close> (\<^verbatim>\<open>NewHalter\<close>, \<^verbatim>\<open>ReqStop\<close>,
  \<^verbatim>\<open>Done\<close> and their \<^verbatim>\<open>Close\<close>) is not among the sources. The spec describes it as two
  one-shot signals, "stop requested" and "done", each closed exactly once; closing a signal
  that is already closed is a programmer error that fails loudly.
\<close>

datatype signal = Open | Closed

record Halter =
  ReqStop :: signal
  Done :: signal

definition NewHalter :: Halter where
  "NewHalter = \<lparr>ReqStop = Open, Done = Open\<rparr>"

text \<open>
  Modelled from the spec: \<^verbatim>\<open>Close\<close> of a signal is not among the sources either. It
  closes an open signal and fails on one that is already closed.
\<close>

definition Close :: "signal \<Rightarrow> string + signal" where
  "Close c = (case c of Open \<Rightarrow> Inr Closed | Closed \<Rightarrow> Inl ''close of closed signal'')"

text \<open>
  The fields of \<^verbatim>\<open>idleTimer\<close> that the code reads or writes. The channels are not
  fields of the model: a communication on one of them is an event of the actor loop
  (below). \<open>last_t\<close> is the field \<^verbatim>\<open>last\<close>; a callback is a value of type \<open>'cb\<close>
  and \<open>None\<close> is the nil function.
\<close>

record 'cb idleTimer =
  last_t :: u64
  halt :: Halter
  timeoutCallback :: "'cb option"
  timeOutRaised :: bool

text \<open>
  The goroutine started by \<^verbatim>\<open>backgroundStart\<close> owns the timer and three variables of
  its own: the parameter \<^verbatim>\<open>dur\<close>, \<^verbatim>\<open>heartbeat\<close> and \<^verbatim>\<open>heartch\<close> (the channel of
  a ticker, or the nil channel).
\<close>

record 'cb actor = "'cb idleTimer" +
  dur :: duration
  heartbeat :: "ticker option"
  heartch :: "ticker option"

text \<open>
  One iteration of the \<^verbatim>\<open>for { select { ... } }\<close> loop is the select case that fires,
  with the value received.
\<close>

datatype 'cb event =
    RecvReqStop
  | SendTimedOut
  | RecvSetCallback "'cb option"
  | SendGetIdleTimeout
  | RecvSetIdleTimeout duration
  | RecvHeartch

text \<open>What an iteration does to the world outside the timer's own fields, in order.\<close>

datatype 'cb action =
    TickerStop ticker
  | NewTicker duration
  | CloseTicket
  | SentTimedOut bool
  | SentIdleTimeout duration
  | Go 'cb
  | CloseDone

text \<open>
  \<open>Running\<close>: the loop goes on to its next iteration. \<open>Exited\<close>: the goroutine has
  returned. \<open>Panicked\<close>: it has panicked with the message. \<open>Disabled\<close>: the select
  case cannot fire in this state (a receive on a nil channel, or on a signal that is not
  closed).
\<close>

datatype status = Running | Exited | Panicked string | Disabled

type_synonym 'cb result = "status \<times> 'cb actor \<times> 'cb action list"

subsection \<open>Operations\<close>

text \<open>
  \<^verbatim>\<open>monoNow()\<close> is not among the sources: its reading at the moment of the call is the
  parameter \<open>now\<close>.
\<close>

definition Reset :: "u64 \<Rightarrow> ('cb, 'z) idleTimer_scheme \<Rightarrow> ('cb, 'z) idleTimer_scheme" where
  "Reset now t = t\<lparr>last_t := now\<rparr>"

definition NanosecSince :: "u64 \<Rightarrow> ('cb, 'z) idleTimer_scheme \<Rightarrow> u64" where
  "NanosecSince now t = now - last_t t"

text \<open>\<^verbatim>\<open>newIdleTimer\<close> followed by the prologue of \<^verbatim>\<open>backgroundStart\<close>.\<close>

definition newIdleTimer :: "'cb option \<Rightarrow> duration \<Rightarrow> 'cb actor" where
  "newIdleTimer callback d =
     (let t = \<lparr>last_t = 0, halt = NewHalter, timeoutCallback = callback,
                timeOutRaised = False, dur = d, heartbeat = None, heartch = None\<rparr>
      in if 0 <s d
         then t\<lparr>heartbeat := Some (Ticker d), heartch := Some (Ticker d)\<rparr>
         else t)"

text \<open>\<^verbatim>\<open>if heartbeat != nil { heartbeat.Stop() }\<close>\<close>

definition stop_heartbeat :: "'cb actor \<Rightarrow> 'cb action list" where
  "stop_heartbeat a = (case heartbeat a of None \<Rightarrow> [] | Some k \<Rightarrow> [TickerStop k])"

text \<open>
  The deferred function of the goroutine. It runs when the loop returns and also when it
  panics; \<open>st\<close> is how the loop was left and \<open>acts\<close> what the iteration did before.
\<close>

definition deferred :: "status \<Rightarrow> 'cb actor \<Rightarrow> 'cb action list \<Rightarrow> 'cb result" where
  "deferred st a acts =
     (case Close (Done (halt a)) of
        Inl e \<Rightarrow> ((case st of Panicked m \<Rightarrow> Panicked m | _ \<Rightarrow> Panicked e),
                  a, acts @ stop_heartbeat a)
      | Inr d \<Rightarrow> (st, a\<lparr>halt := (halt a)\<lparr>Done := d\<rparr>\<rparr>,
                  acts @ stop_heartbeat a @ [CloseDone]))"

fun step :: "u64 \<Rightarrow> 'cb event \<Rightarrow> 'cb actor \<Rightarrow> 'cb result" where
  "step now RecvReqStop a =
     (if ReqStop (halt a) = Closed then deferred Exited a [] else (Disabled, a, []))"
| "step now SendTimedOut a = (Running, a, [SentTimedOut (timeOutRaised a)])"
| "step now (RecvSetCallback f) a = (Running, a\<lparr>timeoutCallback := f\<rparr>, [])"
| "step now SendGetIdleTimeout a = (Running, a, [SentIdleTimeout (dur a)])"
| "step now (RecvSetIdleTimeout newdur) a =
     (if 0 <s dur a then
        if newdur = dur a then (Running, a, [CloseTicket])
        else if newdur \<le>s 0 then
          (Running,
           a\<lparr>dur := newdur, heartbeat := None, heartch := None, timeOutRaised := False\<rparr>,
           stop_heartbeat a @ [CloseTicket])
        else
          (Running,
           Reset now (a\<lparr>dur := newdur, heartbeat := Some (Ticker newdur),
                             heartch := Some (Ticker newdur)\<rparr>),
           stop_heartbeat a @ [NewTicker newdur, CloseTicket])
      else
        if newdur \<le>s 0 then (Running, a\<lparr>dur := 0\<rparr>, [CloseTicket])
        else
          (Running,
           Reset now (a\<lparr>timeOutRaised := False, dur := newdur,
                             heartbeat := Some (Ticker newdur),
                             heartch := Some (Ticker newdur)\<rparr>),
           [NewTicker newdur, CloseTicket]))"
| "step now RecvHeartch a =
     (case heartch a of
        None \<Rightarrow> (Disabled, a, [])
      | Some c \<Rightarrow>
          if dur a = 0 then
            deferred (Panicked ''should be impossible to get heartbeat.C on dur == 0'') a []
          else if uint64 (dur a) < NanosecSince now a then
            (let a1 = a\<lparr>timeOutRaised := True\<rparr>;
                 acts = stop_heartbeat a1;
                 a2 = a1\<lparr>heartbeat := None, heartch := None\<rparr>
             in case timeoutCallback a2 of
                  None \<Rightarrow>
                    deferred (Panicked
                      ''idleTimer.timeoutCallback was never set! call t.setTimeoutCallback()!!!'')
                      a2 acts
                | Some cb \<Rightarrow> (Running, a2, acts @ [Go cb]))
          else (Running, a, []))"

text \<open>
  A run of the loop: the select cases that fire, each with the clock reading at that
  moment. The run ends with the first iteration that does not go on.
\<close>

fun run :: "(u64 \<times> 'cb event) list \<Rightarrow> 'cb actor \<Rightarrow> 'cb result" where
  "run [] a = (Running, a, [])"
| "run (e # es) a =
     (case step (fst e) (snd e) a of
        (Running, a', acts) \<Rightarrow>
          (case run es a' of (st, a'', acts') \<Rightarrow> (st, a'', acts @ acts'))
      | r \<Rightarrow> r)"

text \<open>
  \<^verbatim>\<open>Stop()\<close> closes \<^verbatim>\<open>ReqStop\<close> and then waits in a select with two cases. While
  it waits the actor loop goes on: \<open>es\<close> is what the loop does in that time, and \<open>c\<close>
  is the case of the select that fires. The case \<^verbatim>\<open><-t.halt.Done.Chan\<close> can fire only
  once \<^verbatim>\<open>Done\<close> is closed.
\<close>

datatype stop_case = Recv_Done | Recv_After_10s

datatype call = Returned | Aborted string | Blocked

definition Stop :: "(u64 \<times> 'cb event) list \<Rightarrow> stop_case \<Rightarrow> 'cb actor \<Rightarrow> call \<times> 'cb result" where
  "Stop es c a =
     (case Close (ReqStop (halt a)) of
        Inl e \<Rightarrow> (Aborted e, Running, a, [])
      | Inr r \<Rightarrow>
          (let res = run es (a\<lparr>halt := (halt a)\<lparr>ReqStop := r\<rparr>\<rparr>)
           in case c of
                Recv_Done \<Rightarrow>
                  (if Done (halt (fst (snd res))) = Closed then Returned else Blocked, res)
              | Recv_After_10s \<Rightarrow>
                  (Aborted
                     ''idleTimer.Stop() problem! t.halt.Done.Chan not received  after 10sec! serious problem'',
                   res)))"

text \<open>
  The three calls that talk to the loop. Every select of a call has two cases: a
  communication with the loop (in the second select of \<^verbatim>\<open>SetIdleTimeout\<close>, the receive
  on \<^verbatim>\<open>tk.done\<close>) and the receive on \<^verbatim>\<open>ReqStop\<close>. As for \<^verbatim>\<open>Stop()\<close>, the case
  that fires is an input, and a case that cannot fire gives \<open>Blocked\<close>. The loop is the
  only goroutine at the other end of the channels, so a communication with it can fire
  only while the loop runs, and then the loop performs the matching iteration; the loop
  runs exactly while \<^verbatim>\<open>Done\<close> is open, since its deferred function closes \<^verbatim>\<open>Done\<close>
  when it ends. The receive on \<^verbatim>\<open>ReqStop\<close> can fire only once \<^verbatim>\<open>ReqStop\<close> is
  closed, and the receive on \<^verbatim>\<open>tk.done\<close> only once the loop has closed the ticket.
\<close>

datatype call_case = Chan_case | ReqStop_case

definition setTimeoutCallback ::
  "'cb option \<Rightarrow> u64 \<Rightarrow> call_case \<Rightarrow> 'cb actor \<Rightarrow> call \<times> 'cb actor \<times> 'cb action list" where
  "setTimeoutCallback timeoutFunc now c a =
     (case c of
        Chan_case \<Rightarrow>
          if Done (halt a) = Open
          then (Returned, snd (step now (RecvSetCallback timeoutFunc) a))
          else (Blocked, a, [])
      | ReqStop_case \<Rightarrow>
          if ReqStop (halt a) = Closed then (Returned, a, []) else (Blocked, a, []))"




subsection \<open>Observations on a run\<close>

text \<open>The callbacks started with \<^verbatim>\<open>go\<close>, and the values sent on \<^verbatim>\<open>TimedOut\<close>.\<close>

fun dispatched :: "'cb action list \<Rightarrow> 'cb list" where
  "dispatched [] = []"
| "dispatched (Go cb # xs) = cb # dispatched xs"
| "dispatched (x # xs) = dispatched xs"

fun timedOut_replies :: "'cb action list \<Rightarrow> bool list" where
  "timedOut_replies [] = []"
| "timedOut_replies (SentTimedOut b # xs) = b # timedOut_replies xs"
| "timedOut_replies (x # xs) = timedOut_replies xs"

text \<open>
  The tickers left running by a sequence of actions, given those running before it; the
  ticker the loop holds; and what the loop keeps true of its variables between
  iterations: it holds a ticker only while \<open>dur > 0\<close>.
\<close>

fun running :: "'cb action list \<Rightarrow> ticker list \<Rightarrow> ticker list" where
  "running [] ks = ks"
| "running (NewTicker d # xs) ks = running xs (Ticker d # ks)"
| "running (TickerStop k # xs) ks = running xs (remove1 k ks)"
| "running (x # xs) ks = running xs ks"

definition held :: "'cb actor \<Rightarrow> ticker list" where
  "held a = (case heartbeat a of None \<Rightarrow> [] | Some k \<Rightarrow> [k])"

definition ticking_only_if_active :: "'cb actor \<Rightarrow> bool" where
  "ticking_only_if_active a = (heartbeat a = None \<or> 0 <s dur a)"

text \<open>A \<^verbatim>\<open>SetIdleTimeout\<close> with a positive duration.\<close>

fun rearms :: "'cb event \<Rightarrow> bool" where
  "rearms (RecvSetIdleTimeout d) = (0 <s d)"
| "rearms e = False"

section \<open>Loading RSA keys\<close>

text \<open>
  A Go function that returns a value and an error returns a pair; \<open>None\<close> is nil and an
  error is its message. \<^verbatim>\<open>ioutil.ReadFile\<close>, \<^verbatim>\<open>ssh.ParsePrivateKey\<close> and
  \<^verbatim>\<open>ssh.ParseAuthorizedKey\<close> belong to other packages and are parameters; of the five
  results of \<^verbatim>\<open>ssh.ParseAuthorizedKey\<close> only the first and the last are kept.
\<close>

type_synonym byte = "8 word"

definition Errorf_read :: "string \<Rightarrow> string \<Rightarrow> string" where
  "Errorf_read err path =
     ''got error '' @ [CHR 0x27] @ err @ [CHR 0x27] @ '' trying to read path '' @
     [CHR 0x27] @ path @ [CHR 0x27]"

definition Errorf_parse :: "string \<Rightarrow> string \<Rightarrow> string" where
  "Errorf_parse err path =
     ''got error '' @ [CHR 0x27] @ err @ [CHR 0x27] @
     '' trying to parse private key from path '' @ [CHR 0x27] @ path @ [CHR 0x27]"

definition LoadRSAPrivateKey ::
  "(string \<Rightarrow> byte list \<times> string option) \<Rightarrow> (byte list \<Rightarrow> 'k option \<times> string option) \<Rightarrow>
   string \<Rightarrow> 'k option \<times> string option" where
  "LoadRSAPrivateKey ReadFile ParsePrivateKey path =
     (case ReadFile path of
        (buf, Some err) \<Rightarrow> (None, Some (Errorf_read err path))
      | (buf, None) \<Rightarrow>
          (case ParsePrivateKey buf of
             (privkey, Some err) \<Rightarrow> (None, Some (Errorf_parse err path))
           | (privkey, None) \<Rightarrow> (privkey, None)))"

definition LoadRSAPublicKey ::
  "(string \<Rightarrow> byte list \<times> string option) \<Rightarrow> (byte list \<Rightarrow> 'k option \<times> string option) \<Rightarrow>
   string \<Rightarrow> 'k option \<times> string option" where
  "LoadRSAPublicKey ReadFile ParseAuthorizedKey path =
     (case ReadFile path of
        (buf, Some err) \<Rightarrow> (None, Some err)
      | (buf, None) \<Rightarrow> ParseAuthorizedKey buf)"

text \<open>
  Collaborators for evaluating the loaders on an example: a file that is read as empty, a
  parser that accepts any bytes as the key, and one that finds no key (the message is
  that of \<^verbatim>\<open>ssh.ParseAuthorizedKey\<close>).
\<close>

definition read_empty :: "string \<Rightarrow> byte list \<times> string option" where
  "read_empty path = ([], None)"

definition read_missing :: "string \<Rightarrow> byte list \<times> string option" where
  "read_missing path = ([], Some ''no such file or directory'')"

definition parse_any :: "byte list \<Rightarrow> byte list option \<times> string option" where
  "parse_any buf = (Some buf, None)"

definition parse_no_key :: "byte list \<Rightarrow> byte list option \<times> string option" where
  "parse_no_key buf = (None, Some ''ssh: no key found'')"

section \<open>Properties of the idle timer\<close>

subsection \<open>Auxiliary facts\<close>

lemma sint_pos_uint: "0 <s (d::64 word) \<Longrightarrow> uint d = sint d"
proof -
  assume "0 <s d"
  then have p: "0 \<le> sint d" by (simp add: word_sless_alt)
  have "sint d < 2 ^ 64" using sint_lt [of d] by simp
  with p have "take_bit 64 (sint d) = sint d" by (simp add: take_bit_int_eq_self)
  then show ?thesis by (simp add: uint_sint)
qed

lemma stale_iff: "0 <s dur a \<Longrightarrow> (uint64 (dur a) < NanosecSince now a) = (sint (dur a) < uint (NanosecSince now a))"
  by (simp add: uint64_def word_less_alt sint_pos_uint)

lemma step_quiet:
  "heartch a = None \<Longrightarrow> \<not> rearms ev \<Longrightarrow> step now ev a = (st, a', acts) \<Longrightarrow>
   dispatched acts = [] \<and> heartch a' = None"
  by (cases ev) (auto simp: deferred_def Close_def stop_heartbeat_def split: if_splits signal.splits option.splits)

lemma step_disabled:
  "heartch a = None \<Longrightarrow> \<not> timeOutRaised a \<Longrightarrow> \<not> rearms ev \<Longrightarrow> step now ev a = (st, a', acts) \<Longrightarrow>
   \<not> timeOutRaised a' \<and> True \<notin> set (timedOut_replies acts)"
  by (cases ev) (auto simp: deferred_def Close_def stop_heartbeat_def split: if_splits signal.splits option.splits)

lemma dispatched_append: "dispatched (xs @ ys) = dispatched xs @ dispatched ys"
  by (induction xs rule: dispatched.induct) auto

lemma timedOut_replies_append: "timedOut_replies (xs @ ys) = timedOut_replies xs @ timedOut_replies ys"
  by (induction xs rule: timedOut_replies.induct) auto

lemma run_preserves:
  assumes inv: "I a"
    and ev: "list_all (\<lambda>e. \<not> rearms (snd e)) es"
    and r: "run es a = (st, a', acts)"
    and stp: "\<And>now ev b st b' xs. I b \<Longrightarrow> \<not> rearms ev \<Longrightarrow> step now ev b = (st, b', xs) \<Longrightarrow> I b' \<and> P xs"
    and nil: "P []"
    and app: "\<And>xs ys. P xs \<Longrightarrow> P ys \<Longrightarrow> P (xs @ ys)"
  shows "I a' \<and> P acts"
  using inv ev r
proof (induction es arbitrary: a st a' acts)
  case Nil
  then show ?case using nil by simp
next
  case (Cons e es)
  obtain st1 a1 acts1 where s1: "step (fst e) (snd e) a = (st1, a1, acts1)"
    by (cases "step (fst e) (snd e) a") auto
  from Cons.prems have ne: "\<not> rearms (snd e)" and rest: "list_all (\<lambda>e. \<not> rearms (snd e)) es"
    by auto
  from stp [OF Cons.prems(1) ne s1] have q1: "I a1" "P acts1" by auto
  show ?case
  proof (cases "st1 = Running")
    case True
    obtain st2 a2 acts2 where s2: "run es a1 = (st2, a2, acts2)"
      by (cases "run es a1") auto
    from Cons.IH [OF q1(1) rest s2] have q2: "I a2" "P acts2" by auto
    from Cons.prems(3) s1 s2 True have "a' = a2" "acts = acts1 @ acts2" by auto
    with q1 q2 app show ?thesis by simp
  next
    case False
    with Cons.prems(3) s1 have "a' = a1" "acts = acts1" by (cases st1; auto)+
    with q1 show ?thesis by simp
  qed
qed

lemma run_quiet:
  assumes "heartch a = None" "list_all (\<lambda>e. \<not> rearms (snd e)) es" "run es a = (st, a', acts)"
  shows "heartch a' = None \<and> dispatched acts = []"
  by (rule run_preserves [where I = "\<lambda>b. heartch b = None" and P = "\<lambda>xs. dispatched xs = []", OF assms])
     (auto simp: dispatched_append dest: step_quiet)

lemma run_disabled:
  assumes "heartch a = None \<and> \<not> timeOutRaised a" "list_all (\<lambda>e. \<not> rearms (snd e)) es" "run es a = (st, a', acts)"
  shows "(heartch a' = None \<and> \<not> timeOutRaised a') \<and> True \<notin> set (timedOut_replies acts)"
  by (rule run_preserves [where I = "\<lambda>b. heartch b = None \<and> \<not> timeOutRaised b" and P = "\<lambda>xs. True \<notin> set (timedOut_replies xs)", OF assms])
     (auto simp: timedOut_replies_append dest: step_quiet step_disabled)

subsection \<open>Setting the duration already in use\<close>

text \<open>
  C3. On an active timer (\<open>dur > 0\<close>) a \<^verbatim>\<open>SetIdleTimeout\<close> with the duration already
  in use only acknowledges: the iteration closes the ticket and nothing more, and the
  whole state of the actor is as before, so the time of last activity, the fired flag and
  the ticker are untouched.
\<close>

theorem SetIdleTimeout_same_duration_noop:
  "0 <s dur a \<Longrightarrow> step now (RecvSetIdleTimeout (dur a)) a = (Running, a, [CloseTicket])"
  by simp

theorem SetIdleTimeout_same_duration_noop_witness:
  "0 <s dur (newIdleTimer (Some ''cb'') 50) \<and>
   step 40 (RecvSetIdleTimeout (dur (newIdleTimer (Some ''cb'') 50))) (newIdleTimer (Some ''cb'') 50)
     = (Running, newIdleTimer (Some ''cb'') 50, [CloseTicket])"
proof -
  have h: "0 <s dur (newIdleTimer (Some ''cb'') 50)"
    by (simp add: newIdleTimer_def word_sless_alt)
  show ?thesis using h SetIdleTimeout_same_duration_noop [OF h, of 40] by simp
qed

subsection \<open>The periodic check\<close>

text \<open>
  C1. On an armed timer (\<open>dur > 0\<close>, the ticker's channel in \<^verbatim>\<open>heartch\<close>) a tick
  compares \<^verbatim>\<open>NanosecSince()\<close> with \<open>dur\<close>. If the elapsed nanoseconds are at most
  \<open>dur\<close>, the iteration changes nothing and does nothing. If they exceed \<open>dur\<close> and a
  callback is registered, the fired flag is set, the ticker is stopped and forgotten, and
  the callback is started once with \<^verbatim>\<open>go\<close>; after that a tick cannot be received, and no
  run of the loop without a \<^verbatim>\<open>SetIdleTimeout\<close> of a positive duration starts a callback.
\<close>

theorem heartbeat_check_fires_once:
  assumes armed: "0 <s dur a" "heartch a = Some c"
  shows "(uint (NanosecSince now a) \<le> sint (dur a) \<longrightarrow>
            step now RecvHeartch a = (Running, a, [])) \<and>
         (sint (dur a) < uint (NanosecSince now a) \<and> timeoutCallback a = Some cb \<longrightarrow>
            step now RecvHeartch a =
              (Running, a\<lparr>timeOutRaised := True, heartbeat := None, heartch := None\<rparr>,
               stop_heartbeat a @ [Go cb]) \<and>
            dispatched (snd (snd (step now RecvHeartch a))) = [cb] \<and>
            fst (step now' RecvHeartch (fst (snd (step now RecvHeartch a)))) = Disabled \<and>
            (list_all (\<lambda>e. \<not> rearms (snd e)) es \<longrightarrow>
               dispatched (snd (snd (run es (fst (snd (step now RecvHeartch a)))))) = []))"
proof (intro conjI impI)
  from armed have nz: "dur a \<noteq> 0" by (auto simp: word_sless_alt)
  {
    assume "uint (NanosecSince now a) \<le> sint (dur a)"
    with armed have "\<not> uint64 (dur a) < NanosecSince now a" by (simp add: stale_iff)
    with armed nz show "step now RecvHeartch a = (Running, a, [])" by simp
  }
  assume "sint (dur a) < uint (NanosecSince now a) \<and> timeoutCallback a = Some cb"
  then have stale: "sint (dur a) < uint (NanosecSince now a)" and cb: "timeoutCallback a = Some cb"
    by auto
  let ?a' = "a\<lparr>timeOutRaised := True, heartbeat := None, heartch := None\<rparr>"
  from stale armed have "uint64 (dur a) < NanosecSince now a" by (simp add: stale_iff)
  with armed nz cb show st: "step now RecvHeartch a = (Running, ?a', stop_heartbeat a @ [Go cb])"
    by (simp add: stop_heartbeat_def)
  have "dispatched (stop_heartbeat a @ [Go cb]) = [cb]"
    by (simp add: stop_heartbeat_def dispatched_append split: option.splits)
  with st show "dispatched (snd (snd (step now RecvHeartch a))) = [cb]" by simp
  from st show "fst (step now' RecvHeartch (fst (snd (step now RecvHeartch a)))) = Disabled"
    by simp
  assume ne: "list_all (\<lambda>e. \<not> rearms (snd e)) es"
  obtain st2 a2 acts2 where r: "run es ?a' = (st2, a2, acts2)" by (cases "run es ?a'") auto
  have "heartch ?a' = None" by simp
  from run_quiet [OF this ne r] r st
  show "dispatched (snd (snd (run es (fst (snd (step now RecvHeartch a)))))) = []" by simp
qed

theorem heartbeat_check_fires_once_witness:
  "step 30 RecvHeartch (newIdleTimer (Some ''cb'') 50) =
     (Running, newIdleTimer (Some ''cb'') 50, []) \<and>
   step 60 RecvHeartch (newIdleTimer (Some ''cb'') 50) =
     (Running,
      (newIdleTimer (Some ''cb'') 50)\<lparr>timeOutRaised := True, heartbeat := None, heartch := None\<rparr>,
      [TickerStop (Ticker 50), Go ''cb'']) \<and>
   dispatched (snd (snd (step 60 RecvHeartch (newIdleTimer (Some ''cb'') 50)))) = [''cb''] \<and>
   fst (step 110 RecvHeartch (fst (snd (step 60 RecvHeartch (newIdleTimer (Some ''cb'') 50)))))
     = Disabled \<and>
   dispatched (snd (snd (run [(110, SendTimedOut), (170, RecvSetIdleTimeout 0), (900, SendGetIdleTimeout)]
     (fst (snd (step 60 RecvHeartch (newIdleTimer (Some ''cb'') 50))))))) = []"
proof -
  let ?a = "newIdleTimer (Some ''cb'') 50"
  have h1: "0 <s dur ?a" by (simp add: newIdleTimer_def word_sless_alt)
  have h2: "heartch ?a = Some (Ticker 50)" by (simp add: newIdleTimer_def word_sless_alt)
  have e1: "uint (NanosecSince 30 ?a) \<le> sint (dur ?a)"
    by (simp add: newIdleTimer_def NanosecSince_def word_sless_alt)
  have e2: "sint (dur ?a) < uint (NanosecSince 60 ?a) \<and> timeoutCallback ?a = Some ''cb''"
    by (simp add: newIdleTimer_def NanosecSince_def word_sless_alt)
  have e3: "list_all (\<lambda>e. \<not> rearms (snd e))
               [(110, SendTimedOut), (170, RecvSetIdleTimeout 0), (900, SendGetIdleTimeout :: string event)]"
    by (simp add: word_sless_alt)
  have s: "stop_heartbeat ?a = [TickerStop (Ticker 50)]"
    by (simp add: newIdleTimer_def stop_heartbeat_def word_sless_alt)
  note A = heartbeat_check_fires_once [OF h1 h2, where now = 30]
  note B = heartbeat_check_fires_once [OF h1 h2, where now = 60 and cb = "''cb''" and now' = 110
      and es = "[(110, SendTimedOut), (170, RecvSetIdleTimeout 0), (900, SendGetIdleTimeout)]"]
  from A e1 have a: "step 30 RecvHeartch ?a = (Running, ?a, [])" by blast
  have s': "stop_heartbeat ?a @ [Go ''cb''] = [TickerStop (Ticker 50), Go ''cb'']"
    by (simp add: s)
  from B e2 e3 have b:
    "step 60 RecvHeartch ?a =
       (Running, ?a\<lparr>timeOutRaised := True, heartbeat := None, heartch := None\<rparr>,
        stop_heartbeat ?a @ [Go ''cb'']) \<and>
     dispatched (snd (snd (step 60 RecvHeartch ?a))) = [''cb''] \<and>
     fst (step 110 RecvHeartch (fst (snd (step 60 RecvHeartch ?a)))) = Disabled \<and>
     dispatched (snd (snd (run [(110, SendTimedOut), (170, RecvSetIdleTimeout 0), (900, SendGetIdleTimeout)]
       (fst (snd (step 60 RecvHeartch ?a)))))) = []"
    by blast
  from a b [unfolded s'] show ?thesis by blast
qed

subsection \<open>Deactivating\<close>

text \<open>
  C4. On an active timer (\<open>dur > 0\<close>) a \<^verbatim>\<open>SetIdleTimeout\<close> with a duration that is
  zero or negative stops the ticker, forgets it, clears the fired flag and acknowledges.
  Afterwards a tick cannot be received, and along every run of the loop that has no
  \<^verbatim>\<open>SetIdleTimeout\<close> of a positive duration, whatever the clock readings, no callback is
  started, every value sent on \<^verbatim>\<open>TimedOut\<close> is false and the fired flag stays false.
\<close>

theorem SetIdleTimeout_nonpositive_deactivates:
  assumes active: "0 <s dur a" and np: "newdur \<le>s 0"
  shows "step now (RecvSetIdleTimeout newdur) a =
           (Running,
            a\<lparr>dur := newdur, heartbeat := None, heartch := None, timeOutRaised := False\<rparr>,
            stop_heartbeat a @ [CloseTicket]) \<and>
         fst (step now' RecvHeartch (fst (snd (step now (RecvSetIdleTimeout newdur) a))))
           = Disabled \<and>
         (list_all (\<lambda>e. \<not> rearms (snd e)) es \<longrightarrow>
            dispatched (snd (snd (run es (fst (snd (step now (RecvSetIdleTimeout newdur) a))))))
              = [] \<and>
            True \<notin> set (timedOut_replies
              (snd (snd (run es (fst (snd (step now (RecvSetIdleTimeout newdur) a))))))) \<and>
            \<not> timeOutRaised (fst (snd (run es (fst (snd (step now (RecvSetIdleTimeout newdur) a)))))))"
proof (intro conjI impI)
  let ?a' = "a\<lparr>dur := newdur, heartbeat := None, heartch := None, timeOutRaised := False\<rparr>"
  from active np have ne: "newdur \<noteq> dur a" by (auto simp: word_sless_alt word_sle_eq)
  with active np show st: "step now (RecvSetIdleTimeout newdur) a =
      (Running, ?a', stop_heartbeat a @ [CloseTicket])"
    by simp
  then show "fst (step now' RecvHeartch (fst (snd (step now (RecvSetIdleTimeout newdur) a))))
      = Disabled"
    by simp
  assume q: "list_all (\<lambda>e. \<not> rearms (snd e)) es"
  obtain st2 a2 acts2 where r: "run es ?a' = (st2, a2, acts2)" by (cases "run es ?a'") auto
  have i: "heartch ?a' = None \<and> \<not> timeOutRaised ?a'" by simp
  from run_disabled [OF i q r] run_quiet [OF conjunct1 [OF i] q r] r st
  show "dispatched (snd (snd (run es (fst (snd (step now (RecvSetIdleTimeout newdur) a))))))
          = []"
    and "True \<notin> set (timedOut_replies
          (snd (snd (run es (fst (snd (step now (RecvSetIdleTimeout newdur) a)))))))"
    and "\<not> timeOutRaised (fst (snd (run es (fst (snd (step now (RecvSetIdleTimeout newdur) a))))))"
    by simp_all
qed

theorem SetIdleTimeout_nonpositive_deactivates_witness:
  "step 10 (RecvSetIdleTimeout 0) (newIdleTimer (Some ''cb'') 50) =
     (Running,
      (newIdleTimer (Some ''cb'') 50)
        \<lparr>dur := 0, heartbeat := None, heartch := None, timeOutRaised := False\<rparr>,
      [TickerStop (Ticker 50), CloseTicket]) \<and>
   fst (step 70 RecvHeartch
          (fst (snd (step 10 (RecvSetIdleTimeout 0) (newIdleTimer (Some ''cb'') 50))))) = Disabled \<and>
   dispatched (snd (snd (run [(500, SendTimedOut), (900, RecvSetIdleTimeout (- 3)), (990, SendTimedOut)]
     (fst (snd (step 10 (RecvSetIdleTimeout 0) (newIdleTimer (Some ''cb'') 50))))))) = [] \<and>
   True \<notin> set (timedOut_replies
     (snd (snd (run [(500, SendTimedOut), (900, RecvSetIdleTimeout (- 3)), (990, SendTimedOut)]
       (fst (snd (step 10 (RecvSetIdleTimeout 0) (newIdleTimer (Some ''cb'') 50)))))))) \<and>
   \<not> timeOutRaised
     (fst (snd (run [(500, SendTimedOut), (900, RecvSetIdleTimeout (- 3)), (990, SendTimedOut)]
       (fst (snd (step 10 (RecvSetIdleTimeout 0) (newIdleTimer (Some ''cb'') 50)))))))"
proof -
  let ?a = "newIdleTimer (Some ''cb'') 50"
  have h1: "0 <s dur ?a" by (simp add: newIdleTimer_def word_sless_alt)
  have h2: "(0 :: duration) \<le>s 0" by simp
  have h3: "list_all (\<lambda>e. \<not> rearms (snd e))
              [(500, SendTimedOut), (900, RecvSetIdleTimeout (- 3)), (990, SendTimedOut :: string event)]"
    by (simp add: word_sless_alt)
  have s: "stop_heartbeat ?a @ [CloseTicket] = [TickerStop (Ticker 50), CloseTicket]"
    by (simp add: newIdleTimer_def stop_heartbeat_def word_sless_alt)
  note T = SetIdleTimeout_nonpositive_deactivates [OF h1 h2, where now = 10 and now' = 70
      and es = "[(500, SendTimedOut), (900, RecvSetIdleTimeout (- 3)), (990, SendTimedOut)]"]
  from T [unfolded s] h3 show ?thesis by blast
qed

subsection \<open>Panics of the periodic check\<close>

text \<open>
  C8. When a tick finds the elapsed time above the threshold and no callback is
  registered, the goroutine panics; it also panics when a tick arrives while \<open>dur\<close>
  is zero. In neither case does the loop go on.
\<close>

theorem heartbeat_invariant_violations_panic:
  assumes tick: "heartch a = Some c"
  shows "(dur a \<noteq> 0 \<and> uint64 (dur a) < NanosecSince now a \<and> timeoutCallback a = None \<longrightarrow>
            fst (step now RecvHeartch a) =
              Panicked ''idleTimer.timeoutCallback was never set! call t.setTimeoutCallback()!!!'') \<and>
         (dur a = 0 \<longrightarrow>
            fst (step now RecvHeartch a) =
              Panicked ''should be impossible to get heartbeat.C on dur == 0'')"
  using tick by (simp add: deferred_def Close_def Let_def split: signal.splits)

theorem heartbeat_invariant_violations_panic_witness:
  "fst (step 60 RecvHeartch (newIdleTimer (None :: string option) 50)) =
     Panicked ''idleTimer.timeoutCallback was never set! call t.setTimeoutCallback()!!!'' \<and>
   fst (step 60 RecvHeartch ((newIdleTimer (Some ''cb'') 50)\<lparr>dur := 0\<rparr>)) =
     Panicked ''should be impossible to get heartbeat.C on dur == 0''"
proof -
  let ?a = "newIdleTimer (None :: string option) 50"
  let ?b = "(newIdleTimer (Some ''cb'') 50)\<lparr>dur := 0\<rparr>"
  have a1: "heartch ?a = Some (Ticker 50)" by (simp add: newIdleTimer_def word_sless_alt)
  have a2: "dur ?a \<noteq> 0 \<and> uint64 (dur ?a) < NanosecSince 60 ?a \<and> timeoutCallback ?a = None"
    by (simp add: newIdleTimer_def word_sless_alt uint64_def NanosecSince_def)
  have b1: "heartch ?b = Some (Ticker 50)" by (simp add: newIdleTimer_def word_sless_alt)
  have b2: "dur ?b = 0" by simp
  from heartbeat_invariant_violations_panic [OF a1, of 60] a2
       heartbeat_invariant_violations_panic [OF b1, of 60] b2
  show ?thesis by blast
qed

subsection \<open>Construction with a positive duration\<close>

text \<open>
  C9. A timer constructed with \<open>d > 0\<close> has its ticker running and \<^verbatim>\<open>last\<close> at its
  zero value: \<^verbatim>\<open>Reset()\<close> is not called, \<^verbatim>\<open>NanosecSince()\<close> is the clock reading
  itself, and the first tick raises the flag exactly when the clock reading exceeds \<open>d\<close>.
  A \<^verbatim>\<open>SetIdleTimeout\<close> that activates the timer or changes its duration stores the
  clock reading in \<^verbatim>\<open>last\<close>, and closing the ticket is the last thing it does.
\<close>

theorem newIdleTimer_does_not_Reset:
  assumes pos: "0 <s d"
  shows "heartbeat (newIdleTimer cb d) = Some (Ticker d) \<and>
         heartch (newIdleTimer cb d) = Some (Ticker d) \<and>
         last_t (newIdleTimer cb d) = 0 \<and>
         NanosecSince now (newIdleTimer cb d) = now \<and>
         timeOutRaised (fst (snd (step now RecvHeartch (newIdleTimer cb d))))
           = (sint d < uint now) \<and>
         (0 <s newdur \<and> newdur \<noteq> dur a \<longrightarrow>
            fst (step t (RecvSetIdleTimeout newdur) a) = Running \<and>
            last_t (fst (snd (step t (RecvSetIdleTimeout newdur) a))) = t \<and>
            NanosecSince t (fst (snd (step t (RecvSetIdleTimeout newdur) a))) = 0 \<and>
            last (snd (snd (step t (RecvSetIdleTimeout newdur) a))) = CloseTicket)"
proof (intro conjI impI)
  let ?a = "newIdleTimer cb d"
  from pos show hb: "heartbeat ?a = Some (Ticker d)" and hc: "heartch ?a = Some (Ticker d)"
    and l: "last_t ?a = 0"
    by (simp_all add: newIdleTimer_def)
  from l show ns: "NanosecSince now ?a = now" by (simp add: NanosecSince_def)
  from pos have du: "dur ?a = d" by (simp add: newIdleTimer_def)
  from pos have nz: "d \<noteq> 0" by (auto simp: word_sless_alt)
  have fl: "\<not> timeOutRaised ?a" by (simp add: newIdleTimer_def Let_def)
  from pos du have si: "(uint64 (dur ?a) < NanosecSince now ?a) = (sint d < uint now)"
    using stale_iff [of ?a now] ns by simp
  show "timeOutRaised (fst (snd (step now RecvHeartch ?a))) = (sint d < uint now)"
    using hc du nz fl si
    by (simp add: Let_def deferred_def Close_def split: option.splits signal.splits)
next
  assume "0 <s newdur \<and> newdur \<noteq> dur a"
  then have p: "0 <s newdur" and ne: "newdur \<noteq> dur a" by auto
  from p have np: "\<not> newdur \<le>s 0" by (simp add: word_sless_alt word_sle_eq)
  from np ne show "fst (step t (RecvSetIdleTimeout newdur) a) = Running"
    and "last_t (fst (snd (step t (RecvSetIdleTimeout newdur) a))) = t"
    and "NanosecSince t (fst (snd (step t (RecvSetIdleTimeout newdur) a))) = 0"
    and "last (snd (snd (step t (RecvSetIdleTimeout newdur) a))) = CloseTicket"
    by (simp_all add: Reset_def NanosecSince_def)
qed

theorem newIdleTimer_does_not_Reset_witness:
  "heartbeat (newIdleTimer (Some ''cb'') 50) = Some (Ticker 50) \<and>
   last_t (newIdleTimer (Some ''cb'') 50) = 0 \<and>
   NanosecSince 1000 (newIdleTimer (Some ''cb'') 50) = 1000 \<and>
   timeOutRaised (fst (snd (step 1000 RecvHeartch (newIdleTimer (Some ''cb'') 50)))) \<and>
   last_t (fst (snd (step 1000 (RecvSetIdleTimeout 50) (newIdleTimer (Some ''cb'') 0)))) = 1000 \<and>
   NanosecSince 1000 (fst (snd (step 1000 (RecvSetIdleTimeout 50) (newIdleTimer (Some ''cb'') 0)))) = 0"
proof -
  have h: "0 <s (50 :: duration)" by (simp add: word_sless_alt)
  have g: "0 <s (50 :: duration) \<and> 50 \<noteq> dur (newIdleTimer (Some ''cb'') 0)"
    by (simp add: word_sless_alt newIdleTimer_def)
  have e: "sint (50 :: duration) < uint (1000 :: u64)" by simp
  note T = newIdleTimer_does_not_Reset [OF h, where cb = "Some ''cb''" and now = 1000
      and newdur = 50 and a = "newIdleTimer (Some ''cb'') 0" and t = 1000]
  from T g e show ?thesis by blast
qed

subsection \<open>Changing the duration of a timer that has fired\<close>

text \<open>
  C2. A timer is activated with 50 ns at time 0 and its tick at time 100 fires. A
  \<^verbatim>\<open>SetIdleTimeout\<close> of 80 ns at time 200 starts a new ticker of 80 ns and stores 200
  in \<^verbatim>\<open>last\<close>, but the fired flag is still true: the next value sent on
  \<^verbatim>\<open>TimedOut\<close> is true.
\<close>

theorem rearm_after_firing_keeps_flag:
  "run [(0, RecvSetIdleTimeout 50), (100, RecvHeartch), (200, RecvSetIdleTimeout 80),
        (210, SendTimedOut)]
       (newIdleTimer (Some ''cb'') 0) =
     (Running,
      \<lparr>last_t = 200, halt = NewHalter, timeoutCallback = Some ''cb'', timeOutRaised = True,
       dur = 80, heartbeat = Some (Ticker 80), heartch = Some (Ticker 80)\<rparr>,
      [NewTicker 50, CloseTicket, TickerStop (Ticker 50), Go ''cb'', NewTicker 80, CloseTicket,
       SentTimedOut True])"
  by (simp add: newIdleTimer_def word_sless_alt word_sle_eq Reset_def NanosecSince_def uint64_def
      stop_heartbeat_def)

subsection \<open>The duration reported after disabling\<close>

text \<open>
  C5. On a timer active with 50 ns, a \<^verbatim>\<open>SetIdleTimeout\<close> of \<open>-1\<close> disables the
  timeouts (the ticker is stopped and forgotten), and the value then sent on
  \<^verbatim>\<open>getIdleTimeoutCh\<close> is \<open>-1\<close>.
\<close>

theorem GetIdleTimeout_after_negative_SetIdleTimeout:
  "run [(10, RecvSetIdleTimeout (- 1)), (20, SendGetIdleTimeout)] (newIdleTimer (Some ''cb'') 50) =
     (Running,
      \<lparr>last_t = 0, halt = NewHalter, timeoutCallback = Some ''cb'', timeOutRaised = False,
       dur = - 1, heartbeat = None, heartch = None\<rparr>,
      [TickerStop (Ticker 50), CloseTicket, SentIdleTimeout (- 1)])"
  by (simp add: newIdleTimer_def word_sless_alt word_sle_eq stop_heartbeat_def)

subsection \<open>Stopping\<close>

text \<open>
  As long as \<^verbatim>\<open>Done\<close> is open, an iteration either leaves it open and closes nothing,
  or ends the loop, and then closing \<^verbatim>\<open>Done\<close> is the last thing done, right after
  stopping the ticker held in \<^verbatim>\<open>heartbeat\<close>.
\<close>

lemma step_Done:
  assumes "Done (halt a) = Open" "step now ev a = (st, a', acts)"
  shows "(st = Running \<or> st = Disabled) \<and> Done (halt a') = Open \<and> CloseDone \<notin> set acts \<or>
         (st = Exited \<or> (\<exists>m. st = Panicked m)) \<and> Done (halt a') = Closed \<and>
         (\<exists>pre. acts = pre @ stop_heartbeat a' @ [CloseDone])"
  using assms
  by (cases ev)
     (auto simp: deferred_def Close_def stop_heartbeat_def Let_def Reset_def
           split: if_splits option.splits)

lemma run_Done:
  assumes "Done (halt a) = Open" "run es a = (st, a', acts)"
  shows "(st = Running \<or> st = Disabled) \<and> Done (halt a') = Open \<and> CloseDone \<notin> set acts \<or>
         (st = Exited \<or> (\<exists>m. st = Panicked m)) \<and> Done (halt a') = Closed \<and>
         (\<exists>pre. acts = pre @ stop_heartbeat a' @ [CloseDone])"
  using assms
proof (induction es arbitrary: a st a' acts)
  case Nil
  then show ?case by simp
next
  case (Cons e es)
  obtain st1 a1 acts1 where s1: "step (fst e) (snd e) a = (st1, a1, acts1)"
    by (cases "step (fst e) (snd e) a") auto
  note d1 = step_Done [OF Cons.prems(1) s1]
  show ?case
  proof (cases "st1 = Running")
    case True
    with d1 have o: "Done (halt a1) = Open" and n1: "CloseDone \<notin> set acts1" by auto
    obtain st2 a2 acts2 where s2: "run es a1 = (st2, a2, acts2)"
      by (cases "run es a1") auto
    from Cons.prems(2) s1 s2 True have eq: "st = st2" "a' = a2" "acts = acts1 @ acts2" by auto
    from Cons.IH [OF o s2] show ?thesis
    proof
      assume "(st2 = Running \<or> st2 = Disabled) \<and> Done (halt a2) = Open \<and> CloseDone \<notin> set acts2"
      with n1 show ?thesis unfolding eq by simp
    next
      assume c: "(st2 = Exited \<or> (\<exists>m. st2 = Panicked m)) \<and> Done (halt a2) = Closed \<and>
         (\<exists>pre. acts2 = pre @ stop_heartbeat a2 @ [CloseDone])"
      then obtain pre where "acts2 = pre @ stop_heartbeat a2 @ [CloseDone]" by blast
      then have "acts1 @ acts2 = (acts1 @ pre) @ stop_heartbeat a2 @ [CloseDone]" by simp
      with c show ?thesis unfolding eq by blast
    qed
  next
    case False
    with Cons.prems(2) s1 have "st = st1" "a' = a1" "acts = acts1" by (cases st1; auto)+
    with d1 show ?thesis by simp
  qed
qed

text \<open>
  The loop never loses a ticker: the tickers running after an iteration are the one it
  holds, and none once the loop is over.
\<close>

lemma running_append: "running (xs @ ys) ks = running ys (running xs ks)"
  by (induction xs ks rule: running.induct) auto

lemma step_running:
  assumes "ticking_only_if_active a" "step now ev a = (st, a', acts)"
  shows "ticking_only_if_active a' \<and>
         running acts (held a) = (if st = Running \<or> st = Disabled then held a' else [])"
  using assms
  by (cases ev)
     (auto simp: ticking_only_if_active_def held_def deferred_def Close_def stop_heartbeat_def
           Let_def Reset_def word_sless_alt word_sle_eq
           split: if_splits option.splits signal.splits)

lemma run_running:
  assumes "ticking_only_if_active a" "run es a = (st, a', acts)"
  shows "ticking_only_if_active a' \<and>
         running acts (held a) = (if st = Running \<or> st = Disabled then held a' else [])"
  using assms
proof (induction es arbitrary: a st a' acts)
  case Nil
  then show ?case by auto
next
  case (Cons e es)
  obtain st1 a1 acts1 where s1: "step (fst e) (snd e) a = (st1, a1, acts1)"
    by (cases "step (fst e) (snd e) a") auto
  note r1 = step_running [OF Cons.prems(1) s1]
  show ?case
  proof (cases "st1 = Running")
    case True
    obtain st2 a2 acts2 where s2: "run es a1 = (st2, a2, acts2)"
      by (cases "run es a1") auto
    from Cons.prems(2) s1 s2 True have eq: "st = st2" "a' = a2" "acts = acts1 @ acts2" by auto
    from r1 True have k: "running acts1 (held a) = held a1" by simp
    from Cons.IH [OF conjunct1 [OF r1] s2] show ?thesis
      unfolding eq by (simp add: running_append k)
  next
    case False
    with Cons.prems(2) s1 have "st = st1" "a' = a1" "acts = acts1" by (cases st1; auto)+
    with r1 show ?thesis by simp
  qed
qed

text \<open>
  C7. \<^verbatim>\<open>Stop()\<close> on a timer not yet stopped first closes \<^verbatim>\<open>ReqStop\<close>: the loop
  goes on in a state where the stop is requested, and when it takes that case it stops
  the ticker it holds, closes \<^verbatim>\<open>Done\<close> and returns. \<^verbatim>\<open>Stop()\<close> then waits: if the
  10-second case fires it panics; the other case returns, and it can fire only when
  \<^verbatim>\<open>Done\<close> is closed, that is when the loop is over and closing \<^verbatim>\<open>Done\<close> was the
  last thing the loop did, after stopping its ticker. While \<^verbatim>\<open>Done\<close> is open that case
  is blocked. If the loop held a ticker only while \<open>dur > 0\<close> when \<^verbatim>\<open>Stop()\<close> was
  called, no ticker is running when \<^verbatim>\<open>Stop()\<close> returns.
\<close>

theorem Stop_waits_for_Done_or_panics:
  assumes req: "ReqStop (halt a) = Open" and dn: "Done (halt a) = Open"
  shows "snd (Stop es c a) = run es (a\<lparr>halt := (halt a)\<lparr>ReqStop := Closed\<rparr>\<rparr>) \<and>
         step now RecvReqStop (a\<lparr>halt := (halt a)\<lparr>ReqStop := Closed\<rparr>\<rparr>) =
           (Exited, a\<lparr>halt := \<lparr>ReqStop = Closed, Done = Closed\<rparr>\<rparr>,
            stop_heartbeat a @ [CloseDone]) \<and>
         fst (Stop es Recv_After_10s a) =
           Aborted ''idleTimer.Stop() problem! t.halt.Done.Chan not received  after 10sec! serious problem'' \<and>
         (fst (Stop es Recv_Done a) = Returned \<or> fst (Stop es Recv_Done a) = Blocked) \<and>
         (fst (Stop es Recv_Done a) = Returned \<longrightarrow>
            (fst (snd (Stop es Recv_Done a)) = Exited \<or>
             (\<exists>m. fst (snd (Stop es Recv_Done a)) = Panicked m)) \<and>
            Done (halt (fst (snd (snd (Stop es Recv_Done a))))) = Closed \<and>
            (\<exists>pre. snd (snd (snd (Stop es Recv_Done a))) =
               pre @ stop_heartbeat (fst (snd (snd (Stop es Recv_Done a)))) @ [CloseDone])) \<and>
         (fst (Stop es Recv_Done a) = Blocked \<longrightarrow>
            Done (halt (fst (snd (snd (Stop es Recv_Done a))))) = Open \<and>
            CloseDone \<notin> set (snd (snd (snd (Stop es Recv_Done a))))) \<and>
         (ticking_only_if_active a \<and> fst (Stop es Recv_Done a) = Returned \<longrightarrow>
            running (snd (snd (snd (Stop es Recv_Done a)))) (held a) = [])"
proof -
  let ?a1 = "a\<lparr>halt := (halt a)\<lparr>ReqStop := Closed\<rparr>\<rparr>"
  obtain st a' acts where r: "run es ?a1 = (st, a', acts)" by (cases "run es ?a1") auto
  from req have S: "\<And>c. snd (Stop es c a) = run es ?a1"
    by (simp add: Stop_def Close_def Let_def split: stop_case.splits)
  from req r have D: "fst (Stop es Recv_Done a) = (if Done (halt a') = Closed then Returned else Blocked)"
    by (simp add: Stop_def Close_def Let_def)
  from req have A: "fst (Stop es Recv_After_10s a) =
      Aborted ''idleTimer.Stop() problem! t.halt.Done.Chan not received  after 10sec! serious problem''"
    by (simp add: Stop_def Close_def Let_def)
  from dn have o: "Done (halt ?a1) = Open" by simp
  note rd = run_Done [OF o r]
  have E: "step now RecvReqStop ?a1 =
      (Exited, a\<lparr>halt := \<lparr>ReqStop = Closed, Done = Closed\<rparr>\<rparr>, stop_heartbeat a @ [CloseDone])"
    using dn by (simp add: deferred_def Close_def stop_heartbeat_def)
  have L: "ticking_only_if_active a \<and> Done (halt a') = Closed \<longrightarrow> running acts (held a) = []"
  proof
    assume h: "ticking_only_if_active a \<and> Done (halt a') = Closed"
    then have i: "ticking_only_if_active ?a1" by (simp add: ticking_only_if_active_def)
    have "held ?a1 = held a" by (simp add: held_def)
    with run_running [OF i r] rd h show "running acts (held a) = []" by auto
  qed
  from rd L show ?thesis
    unfolding S A D E r by auto
qed

theorem Stop_waits_for_Done_or_panics_witness:
  "fst (Stop [(10, SendTimedOut), (20, RecvReqStop)] Recv_Done (newIdleTimer (Some ''cb'') 50))
     = Returned \<and>
   Done (halt (fst (snd (snd
     (Stop [(10, SendTimedOut), (20, RecvReqStop)] Recv_Done (newIdleTimer (Some ''cb'') 50))))))
     = Closed \<and>
   step 20 RecvReqStop
     ((newIdleTimer (Some ''cb'') 50)
        \<lparr>halt := (halt (newIdleTimer (Some ''cb'') 50))\<lparr>ReqStop := Closed\<rparr>\<rparr>) =
     (Exited, (newIdleTimer (Some ''cb'') 50)\<lparr>halt := \<lparr>ReqStop = Closed, Done = Closed\<rparr>\<rparr>,
      [TickerStop (Ticker 50), CloseDone]) \<and>
   fst (Stop [(10, SendTimedOut), (20, RecvReqStop)] Recv_After_10s (newIdleTimer (Some ''cb'') 50)) =
     Aborted ''idleTimer.Stop() problem! t.halt.Done.Chan not received  after 10sec! serious problem'' \<and>
   running (snd (snd (snd
     (Stop [(10, SendTimedOut), (20, RecvReqStop)] Recv_Done (newIdleTimer (Some ''cb'') 50)))))
     (held (newIdleTimer (Some ''cb'') 50)) = []"
proof -
  let ?a = "newIdleTimer (Some ''cb'') 50"
  let ?es = "[(10, SendTimedOut), (20, RecvReqStop)] :: (u64 \<times> string event) list"
  have h1: "ReqStop (halt ?a) = Open" and h2: "Done (halt ?a) = Open"
    by (simp_all add: newIdleTimer_def NewHalter_def word_sless_alt)
  have s: "stop_heartbeat ?a @ [CloseDone] = [TickerStop (Ticker 50), CloseDone]"
    by (simp add: newIdleTimer_def stop_heartbeat_def word_sless_alt)
  have R: "fst (Stop ?es Recv_Done ?a) = Returned"
    by (simp add: Stop_def Close_def newIdleTimer_def NewHalter_def word_sless_alt deferred_def
        stop_heartbeat_def)
  have h3: "ticking_only_if_active ?a"
    by (simp add: ticking_only_if_active_def newIdleTimer_def word_sless_alt)
  note T = Stop_waits_for_Done_or_panics [OF h1 h2, where es = ?es and now = 20]
  from T [unfolded s] R h3 show ?thesis by blast
qed

subsection \<open>Calls after a stop request\<close>







section \<open>Properties of the key loaders\<close>

text \<open>Both messages built by \<^verbatim>\<open>LoadRSAPrivateKey\<close> contain the error and the path.\<close>

lemma sublist_Errorf_read: "sublist path (Errorf_read err path) \<and> sublist err (Errorf_read err path)"
proof -
  have "Errorf_read err path = (''got error '' @ [CHR 0x27] @ err @ [CHR 0x27] @ '' trying to read path '' @ [CHR 0x27]) @ path @ [CHR 0x27]"
    by (simp add: Errorf_read_def)
  then have 1: "sublist path (Errorf_read err path)" unfolding sublist_def by blast
  have "Errorf_read err path = (''got error '' @ [CHR 0x27]) @ err @ ([CHR 0x27] @ '' trying to read path '' @ [CHR 0x27] @ path @ [CHR 0x27])"
    by (simp add: Errorf_read_def)
  then have 2: "sublist err (Errorf_read err path)" unfolding sublist_def by blast
  from 1 2 show ?thesis ..
qed

lemma sublist_Errorf_parse: "sublist path (Errorf_parse err path) \<and> sublist err (Errorf_parse err path)"
proof -
  have "Errorf_parse err path = (''got error '' @ [CHR 0x27] @ err @ [CHR 0x27] @ '' trying to parse private key from path '' @ [CHR 0x27]) @ path @ [CHR 0x27]"
    by (simp add: Errorf_parse_def)
  then have 1: "sublist path (Errorf_parse err path)" unfolding sublist_def by blast
  have "Errorf_parse err path = (''got error '' @ [CHR 0x27]) @ err @ ([CHR 0x27] @ '' trying to parse private key from path '' @ [CHR 0x27] @ path @ [CHR 0x27])"
    by (simp add: Errorf_parse_def)
  then have 2: "sublist err (Errorf_parse err path)" unfolding sublist_def by blast
  from 1 2 show ?thesis ..
qed

text \<open>
  C10, as stated, fails for \<^verbatim>\<open>LoadRSAPublicKey\<close>: when the file is read and no key is
  found in it, the error returned is the parser's own and does not contain the path.
\<close>

theorem LoadRSAPublicKey_parse_error_lacks_path:
  "LoadRSAPublicKey read_empty parse_no_key ''/tmp/id_rsa.pub'' = (None, Some ''ssh: no key found'') \<and>
   \<not> sublist ''/tmp/id_rsa.pub'' ''ssh: no key found''"
proof
  show "LoadRSAPublicKey read_empty parse_no_key ''/tmp/id_rsa.pub'' = (None, Some ''ssh: no key found'')"
    by (simp add: LoadRSAPublicKey_def read_empty_def parse_no_key_def)
  show "\<not> sublist ''/tmp/id_rsa.pub'' ''ssh: no key found''"
    by (auto dest: set_mono_sublist)
qed

text \<open>
  C10, amended. \<^verbatim>\<open>LoadRSAPrivateKey\<close> returns either the key that
  \<^verbatim>\<open>ssh.ParsePrivateKey\<close> returned, with a nil error, or a nil key with an error whose
  message contains the path and the text of the underlying error, for the read failure
  and for the parse failure. \<^verbatim>\<open>LoadRSAPublicKey\<close> returns a nil key with the error of
  \<^verbatim>\<open>ioutil.ReadFile\<close> unchanged when the read fails, and otherwise the key and the
  error exactly as \<^verbatim>\<open>ssh.ParseAuthorizedKey\<close> returned them.
\<close>

theorem Load_keys_results:
  "(case LoadRSAPrivateKey ReadFile ParsePrivateKey path of
      (privkey, None) \<Rightarrow>
        snd (ReadFile path) = None \<and> ParsePrivateKey (fst (ReadFile path)) = (privkey, None)
    | (privkey, Some msg) \<Rightarrow>
        privkey = None \<and> sublist path msg \<and>
        (case snd (ReadFile path) of
           Some err \<Rightarrow> msg = Errorf_read err path \<and> sublist err msg
         | None \<Rightarrow>
             (case snd (ParsePrivateKey (fst (ReadFile path))) of
                Some err \<Rightarrow> msg = Errorf_parse err path \<and> sublist err msg
              | None \<Rightarrow> False))) \<and>
   LoadRSAPublicKey ReadFile ParseAuthorizedKey path =
     (case snd (ReadFile path) of
        Some err \<Rightarrow> (None, Some err)
      | None \<Rightarrow> ParseAuthorizedKey (fst (ReadFile path)))"
proof
  obtain buf e where r: "ReadFile path = (buf, e)" by (cases "ReadFile path") auto
  obtain k e' where p: "ParsePrivateKey buf = (k, e')" by (cases "ParsePrivateKey buf") auto
  show "case LoadRSAPrivateKey ReadFile ParsePrivateKey path of
      (privkey, None) \<Rightarrow>
        snd (ReadFile path) = None \<and> ParsePrivateKey (fst (ReadFile path)) = (privkey, None)
    | (privkey, Some msg) \<Rightarrow>
        privkey = None \<and> sublist path msg \<and>
        (case snd (ReadFile path) of
           Some err \<Rightarrow> msg = Errorf_read err path \<and> sublist err msg
         | None \<Rightarrow>
             (case snd (ParsePrivateKey (fst (ReadFile path))) of
                Some err \<Rightarrow> msg = Errorf_parse err path \<and> sublist err msg
              | None \<Rightarrow> False))"
    using r p sublist_Errorf_read sublist_Errorf_parse
    by (cases e; cases e') (simp_all add: LoadRSAPrivateKey_def)
  show "LoadRSAPublicKey ReadFile ParseAuthorizedKey path =
     (case snd (ReadFile path) of
        Some err \<Rightarrow> (None, Some err)
      | None \<Rightarrow> ParseAuthorizedKey (fst (ReadFile path)))"
    using r by (cases e) (simp_all add: LoadRSAPublicKey_def)
qed

theorem Load_keys_results_witness:
  "LoadRSAPrivateKey read_missing parse_any ''/tmp/id_rsa'' =
     (None, Some (Errorf_read ''no such file or directory'' ''/tmp/id_rsa'')) \<and>
   sublist ''/tmp/id_rsa'' (Errorf_read ''no such file or directory'' ''/tmp/id_rsa'') \<and>
   LoadRSAPublicKey read_missing parse_no_key ''/tmp/id_rsa.pub'' =
     (None, Some ''no such file or directory'')"
proof -
  have v: "LoadRSAPrivateKey read_missing parse_any ''/tmp/id_rsa'' =
     (None, Some (Errorf_read ''no such file or directory'' ''/tmp/id_rsa''))"
    by (simp add: LoadRSAPrivateKey_def read_missing_def)
  note T = Load_keys_results [where ReadFile = read_missing and ParsePrivateKey = parse_any
      and path = "''/tmp/id_rsa''" and ParseAuthorizedKey = parse_no_key]
  note U = Load_keys_results [where ReadFile = read_missing and ParsePrivateKey = parse_any
      and path = "''/tmp/id_rsa.pub''" and ParseAuthorizedKey = parse_no_key]
  from T have "sublist ''/tmp/id_rsa'' (Errorf_read ''no such file or directory'' ''/tmp/id_rsa'')"
    unfolding v by simp
  moreover from U have "LoadRSAPublicKey read_missing parse_no_key ''/tmp/id_rsa.pub'' =
     (None, Some ''no such file or directory'')"
    by (simp add: read_missing_def)
  ultimately show ?thesis using v by simp
qed

end
